theory Spec2Isabelle
  imports Main "HOL-Library.Char_ord" "HOL-Library.List_Lexorder"
begin

section \<open>Text\<close>

text \<open>
  A Python \<^verbatim>\<open>str\<close> is a sequence of code points. The model is \<^typ>\<open>string\<close> with one
  \<^typ>\<open>char\<close> per code point, which covers the code points U+0000 to U+00FF; the Swedish
  letters of the calendar page are among them. The three predicates below are what
  \<^verbatim>\<open>str.isspace\<close> (used by \<^verbatim>\<open>str.strip\<close> and by \<^verbatim>\<open>\s\<close>), \<^verbatim>\<open>\d\<close> and \<^verbatim>\<open>\w\<close> accept in
  that range for a \<^verbatim>\<open>str\<close> pattern.
\<close>

definition is_space :: "char \<Rightarrow> bool" where
  "is_space c =
     (let n = (of_char c :: nat)
      in (9 \<le> n \<and> n \<le> 13) \<or> (28 \<le> n \<and> n \<le> 32) \<or> n = 133 \<or> n = 160)"

definition is_digit :: "char \<Rightarrow> bool" where
  "is_digit c = (let n = (of_char c :: nat) in 48 \<le> n \<and> n \<le> 57)"

definition is_word :: "char \<Rightarrow> bool" where
  "is_word c =
     (let n = (of_char c :: nat)
      in (48 \<le> n \<and> n \<le> 57) \<or> (65 \<le> n \<and> n \<le> 90) \<or> n = 95 \<or> (97 \<le> n \<and> n \<le> 122)
         \<or> n = 170 \<or> n = 178 \<or> n = 179 \<or> n = 181 \<or> n = 185 \<or> n = 186
         \<or> (188 \<le> n \<and> n \<le> 190) \<or> (192 \<le> n \<and> n \<le> 214) \<or> (216 \<le> n \<and> n \<le> 246)
         \<or> 248 \<le> n)"

text \<open>\<^verbatim>\<open>s.strip()\<close>: the whitespace at both ends is removed.\<close>

definition strip :: "string \<Rightarrow> string" where
  "strip s = rev (dropWhile is_space (rev (dropWhile is_space s)))"

text \<open>\<^verbatim>\<open>sep.join(xs)\<close>.\<close>

fun join :: "string \<Rightarrow> string list \<Rightarrow> string" where
  "join sep [] = []"
| "join sep [x] = x"
| "join sep (x # y # ys) = x @ sep @ join sep (y # ys)"

section \<open>The document tree\<close>

text \<open>
  \<^verbatim>\<open>BeautifulSoup(response.text, 'html.parser')\<close> builds a tree of tags, text and comments;
  the extraction works on that tree, and the document itself is the tag at its root. An
  attribute value is a string, or a list of strings for a multi-valued attribute such as
  \<^verbatim>\<open>class\<close>. \<open>Text\<close> is an ordinary string of the document.
\<close>

datatype attr_value = Single string | Multi "string list"

datatype node =
    Tag string "(string \<times> attr_value) list" "node list"
  | Text string
  | Comment string

text \<open>\<^verbatim>\<open>tag.descendants\<close>: everything below the tag, in document order.\<close>

fun descendants :: "node \<Rightarrow> node list" where
  "descendants (Tag nm attrs cs) = concat (map (\<lambda>c. c # descendants c) cs)"
| "descendants (Text s) = []"
| "descendants (Comment s) = []"

text \<open>
  How a search value is matched against an attribute: a multi-valued attribute matches
  when one of its values is the search value, or when its values joined by a space are.
\<close>

fun attr_matches :: "attr_value option \<Rightarrow> string \<Rightarrow> bool" where
  "attr_matches None v = False"
| "attr_matches (Some (Single s)) v = (s = v)"
| "attr_matches (Some (Multi vs)) v = (v \<in> set vs \<or> join '' '' vs = v)"

text \<open>The test behind \<^verbatim>\<open>find(name, class_=cls)\<close>; \<open>None\<close> is a search without \<^verbatim>\<open>class_\<close>.\<close>

fun tag_matches :: "string \<Rightarrow> string option \<Rightarrow> node \<Rightarrow> bool" where
  "tag_matches nm cls (Tag nm' attrs cs) =
     (nm' = nm \<and> (case cls of None \<Rightarrow> True | Some c \<Rightarrow> attr_matches (map_of attrs ''class'') c))"
| "tag_matches nm cls (Text s) = False"
| "tag_matches nm cls (Comment s) = False"

definition find_all :: "string \<Rightarrow> string option \<Rightarrow> node \<Rightarrow> node list" where
  "find_all nm cls n = filter (tag_matches nm cls) (descendants n)"

text \<open>
  \<^verbatim>\<open>find\<close> is the first result of \<^verbatim>\<open>find_all\<close>, or \<^verbatim>\<open>None\<close>. A tag is true whatever its
  contents, so the tests \<^verbatim>\<open>if not meta\<close> and the like of the source are tests for \<^verbatim>\<open>None\<close>.
\<close>

definition find_tag :: "string \<Rightarrow> string option \<Rightarrow> node \<Rightarrow> node option" where
  "find_tag nm cls n = (case find_all nm cls n of [] \<Rightarrow> None | r # _ \<Rightarrow> Some r)"

text \<open>
  \<^verbatim>\<open>tag.get_text(strip=True)\<close>: the text nodes below the tag in document order, each one
  stripped, the empty ones left out, joined with nothing between them. Comments are not
  part of the text.
\<close>

fun node_strings :: "node \<Rightarrow> string list" where
  "node_strings (Text s) = [s]"
| "node_strings (Tag nm attrs cs) = []"
| "node_strings (Comment s) = []"

definition all_strings :: "node \<Rightarrow> string list" where
  "all_strings n = concat (map node_strings (descendants n))"

definition get_text :: "node \<Rightarrow> string" where
  "get_text n = concat (filter (\<lambda>s. s \<noteq> []) (map strip (all_strings n)))"

subsection \<open>Serialisation\<close>

text \<open>
  \<^verbatim>\<open>tag.decode_contents()\<close> with the default formatter: in text and in attribute values
  \<^verbatim>\<open>&\<close>, \<^verbatim>\<open><\<close> and \<^verbatim>\<open>>\<close> become entities; attributes are written sorted by name; a void element
  without children is written \<^verbatim>\<open><br/>\<close>.
\<close>

fun substitute_xml :: "string \<Rightarrow> string" where
  "substitute_xml [] = []"
| "substitute_xml (c # cs) =
     (if c = CHR ''&'' then ''&amp;''
      else if c = CHR ''<'' then ''&lt;''
      else if c = CHR ''>'' then ''&gt;''
      else [c]) @ substitute_xml cs"

definition quoted_attribute_value :: "string \<Rightarrow> string" where
  "quoted_attribute_value v =
     (if CHR 0x22 \<in> set v then
        (if CHR 0x27 \<in> set v
         then [CHR 0x22] @ concat (map (\<lambda>c. if c = CHR 0x22 then ''&quot;'' else [c]) v) @ [CHR 0x22]
         else [CHR 0x27] @ v @ [CHR 0x27])
      else [CHR 0x22] @ v @ [CHR 0x22])"

fun attr_text :: "attr_value \<Rightarrow> string" where
  "attr_text (Single s) = s"
| "attr_text (Multi vs) = join '' '' vs"

definition decode_attrs :: "(string \<times> attr_value) list \<Rightarrow> string" where
  "decode_attrs attrs =
     concat (map (\<lambda>(k, v). '' '' @ k @ ''='' @ quoted_attribute_value (substitute_xml (attr_text v)))
                 (sort_key fst attrs))"

definition empty_element_tags :: "string list" where
  "empty_element_tags =
     [''area'', ''base'', ''br'', ''col'', ''embed'', ''hr'', ''img'', ''input'', ''keygen'',
      ''link'', ''menuitem'', ''meta'', ''param'', ''source'', ''track'', ''wbr'',
      ''basefont'', ''bgsound'', ''command'', ''frame'', ''image'', ''isindex'', ''nextid'',
      ''spacer'']"

fun decode :: "node \<Rightarrow> string" where
  "decode (Tag nm attrs cs) =
     (if cs = [] \<and> nm \<in> set empty_element_tags
      then ''<'' @ nm @ decode_attrs attrs @ ''/>''
      else ''<'' @ nm @ decode_attrs attrs @ ''>'' @ concat (map decode cs) @ ''</'' @ nm @ ''>'')"
| "decode (Text s) = substitute_xml s"
| "decode (Comment s) = ''<!--'' @ s @ ''-->''"

fun decode_contents :: "node \<Rightarrow> string" where
  "decode_contents (Tag nm attrs cs) = concat (map decode cs)"
| "decode_contents (Text s) = []"
| "decode_contents (Comment s) = []"

section \<open>Regular expressions\<close>

text \<open>
  The patterns of the source are sequences of single-character items, each with a greedy
  quantifier, and capture groups around runs of items. \<open>match_items\<close> is the backtracking
  matcher of \<^verbatim>\<open>re\<close> on such a pattern: a greedy item first takes as much as it can and
  gives characters back one at a time while the rest of the pattern fails. The result
  holds, for each group boundary in pattern order, the input that was left there.
\<close>

datatype atom = Lit char | Digit | Space | Word | NoneOf string

datatype quant = Once | Exactly nat | Star | Plus

datatype item = Rep atom quant | GroupStart | GroupEnd

fun atom_ok :: "atom \<Rightarrow> char \<Rightarrow> bool" where
  "atom_ok (Lit d) c = (c = d)"
| "atom_ok Digit c = is_digit c"
| "atom_ok Space c = is_space c"
| "atom_ok Word c = is_word c"
| "atom_ok (NoneOf ds) c = (c \<notin> set ds)"

function match_items :: "item list \<Rightarrow> string \<Rightarrow> string list option" where
  "match_items [] s = Some []"
| "match_items (GroupStart # p) s = map_option (\<lambda>ms. s # ms) (match_items p s)"
| "match_items (GroupEnd # p) s = map_option (\<lambda>ms. s # ms) (match_items p s)"
| "match_items (Rep a Once # p) [] = None"
| "match_items (Rep a Once # p) (c # cs) = (if atom_ok a c then match_items p cs else None)"
| "match_items (Rep a (Exactly 0) # p) s = match_items p s"
| "match_items (Rep a (Exactly (Suc n)) # p) [] = None"
| "match_items (Rep a (Exactly (Suc n)) # p) (c # cs) =
     (if atom_ok a c then match_items (Rep a (Exactly n) # p) cs else None)"
| "match_items (Rep a Star # p) [] = match_items p []"
| "match_items (Rep a Star # p) (c # cs) =
     (if atom_ok a c
      then (case match_items (Rep a Star # p) cs of
              Some ms \<Rightarrow> Some ms
            | None \<Rightarrow> match_items p (c # cs))
      else match_items p (c # cs))"
| "match_items (Rep a Plus # p) [] = None"
| "match_items (Rep a Plus # p) (c # cs) =
     (if atom_ok a c then match_items (Rep a Star # p) cs else None)"
  by pat_completeness auto
termination
  by (relation "measures [\<lambda>(p, s). length s, \<lambda>(p, s). length p]") auto

text \<open>\<^verbatim>\<open>re.search\<close>: the match at the leftmost position that has one.\<close>

fun re_search :: "item list \<Rightarrow> string \<Rightarrow> string list option" where
  "re_search p [] = match_items p []"
| "re_search p (c # cs) =
     (case match_items p (c # cs) of Some ms \<Rightarrow> Some ms | None \<Rightarrow> re_search p cs)"

text \<open>\<^verbatim>\<open>m.group(k)\<close>: the input between the k-th pair of group boundaries.\<close>

definition match_group :: "string list \<Rightarrow> nat \<Rightarrow> string" where
  "match_group ms k =
     (let a = ms ! (2 * k - 2); b = ms ! (2 * k - 1) in take (length a - length b) a)"

definition lits :: "string \<Rightarrow> item list" where
  "lits s = map (\<lambda>c. Rep (Lit c) Once) s"

text \<open>\<^verbatim>\<open>(\d{4}-\d{2}-\d{2})\s*\|\s*(\w+)\<close>\<close>

definition date_re :: "item list" where
  "date_re =
     [GroupStart, Rep Digit (Exactly 4), Rep (Lit CHR ''-'') Once, Rep Digit (Exactly 2),
      Rep (Lit CHR ''-'') Once, Rep Digit (Exactly 2), GroupEnd,
      Rep Space Star, Rep (Lit CHR ''|'') Once, Rep Space Star,
      GroupStart, Rep Word Plus, GroupEnd]"

text \<open>\<^verbatim>\<open><strong>\s*Plats:\s*</strong>\s*([^<]+)\<close> and the same with \<^verbatim>\<open>Tid:\<close>\<close>

definition label_re :: "string \<Rightarrow> item list" where
  "label_re label =
     lits ''<strong>'' @ [Rep Space Star] @ lits label @ [Rep Space Star] @ lits ''</strong>''
     @ [Rep Space Star, GroupStart, Rep (NoneOf ''<'') Plus, GroupEnd]"

definition loc_re :: "item list" where
  "loc_re = label_re ''Plats:''"

definition time_re :: "item list" where
  "time_re = label_re ''Tid:''"

section \<open>fetch\_calendar.py\<close>

record ChurchService =
  date :: string
  day_of_week :: string
  service_name :: string
  location :: "string option"
  time :: "string option"
  occasion :: "string option"
  notes_text :: "string option"

text \<open>
  The part of the loop body that reads the detail block: \<open>details_div\<close> is the result
  of \<^verbatim>\<open>content_div.find('div')\<close>. The result is (location, time, occasion, notes), the last
  one still the list of paragraph texts. (The field \<^verbatim>\<open>notes\<close> is \<open>notes_text\<close> here.)
\<close>

definition read_details ::
  "node option \<Rightarrow> string option \<times> string option \<times> string option \<times> string list" where
  "read_details details_div =
     (case details_div of
        None \<Rightarrow> (None, None, None, [])
      | Some d \<Rightarrow>
          let full_text = decode_contents d;
              location = (case re_search loc_re full_text of
                            None \<Rightarrow> None
                          | Some loc_match \<Rightarrow> Some (strip (match_group loc_match 1)));
              time = (case re_search time_re full_text of
                        None \<Rightarrow> None
                      | Some time_match \<Rightarrow> Some (strip (match_group time_match 1)));
              occasion = (case find_tag ''strong'' None d of
                            None \<Rightarrow> None
                          | Some first_strong \<Rightarrow>
                              let strong_text = get_text first_strong
                              in if strong_text \<noteq> [] \<and> strong_text \<notin> set [''Plats:'', ''Tid:'']
                                 then Some strong_text else None);
              notes = filter (\<lambda>p_text. p_text \<noteq> []) (map get_text (find_all ''p'' None d))
          in (location, time, occasion, notes))"

text \<open>
  The body of \<^verbatim>\<open>for item in items\<close>: \<open>None\<close> is a \<^verbatim>\<open>continue\<close> that appends nothing,
  \<open>Some r\<close> is \<^verbatim>\<open>services.append(r)\<close>.
\<close>

definition item_service :: "node \<Rightarrow> ChurchService option" where
  "item_service item =
     (case find_tag ''div'' (Some ''meta'') item of
        None \<Rightarrow> None
      | Some meta \<Rightarrow>
          let meta_text = get_text meta
          in (case re_search date_re meta_text of
                None \<Rightarrow> None
              | Some date_match \<Rightarrow>
                  (case find_tag ''div'' (Some ''calendar-item-content'') item of
                     None \<Rightarrow> None
                   | Some content_div \<Rightarrow>
                       let h3 = find_tag ''h3'' None content_div;
                           nm = (case h3 of Some h \<Rightarrow> get_text h | None \<Rightarrow> ''Unknown'');
                           (loc, tm, occ, ns) = read_details (find_tag ''div'' None content_div)
                       in Some \<lparr>date = match_group date_match 1,
                                day_of_week = match_group date_match 2,
                                service_name = nm,
                                location = loc,
                                time = tm,
                                occasion = occ,
                                notes_text = (if ns \<noteq> [] then Some (join [CHR 0x0A] ns) else None)\<rparr>)))"

text \<open>The loop over the items, with the list \<open>services\<close> it appends to.\<close>

fun collect :: "node list \<Rightarrow> ChurchService list \<Rightarrow> ChurchService list" where
  "collect [] services = services"
| "collect (item # items) services =
     (case item_service item of
        None \<Rightarrow> collect items services
      | Some r \<Rightarrow> collect items (services @ [r]))"

text \<open>
  \<open>fetch_calendar\<close> after the page has been fetched and parsed: \<open>soup\<close> is the parsed
  document.
\<close>

definition fetch_calendar :: "node \<Rightarrow> ChurchService list" where
  "fetch_calendar soup =
     (case find_tag ''section'' (Some ''calendar'') soup of
        None \<Rightarrow> []
      | Some calendar \<Rightarrow> collect (find_all ''div'' (Some ''calendar-item'') calendar) [])"

section \<open>scrape\_calendar.py\<close>

text \<open>
  The second script has its own \<^verbatim>\<open>ChurchService\<close> with the same seven fields and its own
  \<^verbatim>\<open>fetch_calendar\<close>; the definitions below are translated from that file. The record type
  is shared, so that equality of records is equality field by field.
\<close>

definition scrape_read_details ::
  "node option \<Rightarrow> string option \<times> string option \<times> string option \<times> string list" where
  "scrape_read_details details_div =
     (case details_div of
        None \<Rightarrow> (None, None, None, [])
      | Some d \<Rightarrow>
          let full_text = decode_contents d;
              location = (case re_search loc_re full_text of
                            None \<Rightarrow> None
                          | Some loc_match \<Rightarrow> Some (strip (match_group loc_match 1)));
              time = (case re_search time_re full_text of
                        None \<Rightarrow> None
                      | Some time_match \<Rightarrow> Some (strip (match_group time_match 1)));
              occasion = (case find_tag ''strong'' None d of
                            None \<Rightarrow> None
                          | Some first_strong \<Rightarrow>
                              let strong_text = get_text first_strong
                              in if strong_text \<noteq> [] \<and> strong_text \<notin> set [''Plats:'', ''Tid:'']
                                 then Some strong_text else None);
              notes = filter (\<lambda>p_text. p_text \<noteq> []) (map get_text (find_all ''p'' None d))
          in (location, time, occasion, notes))"

definition scrape_item_service :: "node \<Rightarrow> ChurchService option" where
  "scrape_item_service item =
     (case find_tag ''div'' (Some ''meta'') item of
        None \<Rightarrow> None
      | Some meta \<Rightarrow>
          let meta_text = get_text meta
          in (case re_search date_re meta_text of
                None \<Rightarrow> None
              | Some date_match \<Rightarrow>
                  (case find_tag ''div'' (Some ''calendar-item-content'') item of
                     None \<Rightarrow> None
                   | Some content_div \<Rightarrow>
                       let h3 = find_tag ''h3'' None content_div;
                           nm = (case h3 of Some h \<Rightarrow> get_text h | None \<Rightarrow> ''Unknown'');
                           (loc, tm, occ, ns) = scrape_read_details (find_tag ''div'' None content_div)
                       in Some \<lparr>date = match_group date_match 1,
                                day_of_week = match_group date_match 2,
                                service_name = nm,
                                location = loc,
                                time = tm,
                                occasion = occ,
                                notes_text = (if ns \<noteq> [] then Some (join [CHR 0x0A] ns) else None)\<rparr>)))"

fun scrape_collect :: "node list \<Rightarrow> ChurchService list \<Rightarrow> ChurchService list" where
  "scrape_collect [] services = services"
| "scrape_collect (item # items) services =
     (case scrape_item_service item of
        None \<Rightarrow> scrape_collect items services
      | Some r \<Rightarrow> scrape_collect items (services @ [r]))"

definition scrape_fetch_calendar :: "node \<Rightarrow> ChurchService list" where
  "scrape_fetch_calendar soup =
     (case find_tag ''section'' (Some ''calendar'') soup of
        None \<Rightarrow> []
      | Some calendar \<Rightarrow> scrape_collect (find_all ''div'' (Some ''calendar-item'') calendar) [])"

section \<open>The calendar file: json.dump and json.load\<close>

text \<open>
  The values that a calendar file holds: \<^verbatim>\<open>None\<close>, strings, lists, and dictionaries with
  string keys in insertion order.
\<close>

datatype json = JNull | JString string | JArray "json list" | JObject "(string \<times> json) list"

subsection \<open>json.dump\<close>

definition hexdigit :: "nat \<Rightarrow> char" where
  "hexdigit d = (if d < 10 then char_of (48 + d) else char_of (87 + d))"

text \<open>
  The replacement of one character inside a string literal when \<^verbatim>\<open>ensure_ascii\<close> is false:
  the backslash, the double quote and the characters below U+0020 are escaped, everything
  else is written as it is.
\<close>

definition escape_char :: "char \<Rightarrow> string" where
  "escape_char c =
     (if c = CHR 0x5C then [CHR 0x5C, CHR 0x5C]
      else if c = CHR 0x22 then [CHR 0x5C, CHR 0x22]
      else if c = CHR 0x08 then [CHR 0x5C, CHR ''b'']
      else if c = CHR 0x0C then [CHR 0x5C, CHR ''f'']
      else if c = CHR 0x0A then [CHR 0x5C, CHR ''n'']
      else if c = CHR 0x0D then [CHR 0x5C, CHR ''r'']
      else if c = CHR 0x09 then [CHR 0x5C, CHR ''t'']
      else if (of_char c :: nat) < 32
        then [CHR 0x5C, CHR ''u'', CHR ''0'', CHR ''0'',
              hexdigit ((of_char c :: nat) div 16), hexdigit ((of_char c :: nat) mod 16)]
      else [c])"

definition encode_basestring :: "string \<Rightarrow> string" where
  "encode_basestring s = [CHR 0x22] @ concat (map escape_char s) @ [CHR 0x22]"

text \<open>With \<^verbatim>\<open>indent=2\<close>: a line break and two spaces for each level.\<close>

definition newline_indent :: "nat \<Rightarrow> string" where
  "newline_indent level = CHR 0x0A # replicate (2 * level) CHR '' ''"

fun encode :: "nat \<Rightarrow> json \<Rightarrow> string" where
  "encode level JNull = ''null''"
| "encode level (JString s) = encode_basestring s"
| "encode level (JArray vs) =
     (if vs = [] then ''[]''
      else ''['' @ newline_indent (Suc level)
           @ join ('','' @ newline_indent (Suc level)) (map (encode (Suc level)) vs)
           @ newline_indent level @ '']'')"
| "encode level (JObject kvs) =
     (if kvs = [] then ''{}''
      else ''{'' @ newline_indent (Suc level)
           @ join ('','' @ newline_indent (Suc level))
               (map (\<lambda>(k, v). encode_basestring k @ '': '' @ encode (Suc level) v) kvs)
           @ newline_indent level @ ''}'')"

text \<open>\<^verbatim>\<open>asdict(service)\<close>: the fields in the order of the class.\<close>

fun opt_json :: "string option \<Rightarrow> json" where
  "opt_json None = JNull"
| "opt_json (Some s) = JString s"

definition asdict :: "ChurchService \<Rightarrow> (string \<times> json) list" where
  "asdict s =
     [(''date'', JString (date s)),
      (''day_of_week'', JString (day_of_week s)),
      (''service_name'', JString (service_name s)),
      (''location'', opt_json (location s)),
      (''time'', opt_json (time s)),
      (''occasion'', opt_json (occasion s)),
      (''notes'', opt_json (notes_text s))]"

text \<open>
  The text that \<^verbatim>\<open>main\<close> of \<^verbatim>\<open>fetch_calendar.py\<close> writes:
  \<^verbatim>\<open>json.dump([asdict(service) for service in services], f, ensure_ascii=False, indent=2)\<close>.
\<close>

definition json_dump :: "ChurchService list \<Rightarrow> string" where
  "json_dump services = encode 0 (JArray (map (\<lambda>service. JObject (asdict service)) services))"

subsection \<open>json.load\<close>

definition json_ws :: "char \<Rightarrow> bool" where
  "json_ws c = (c = CHR '' '' \<or> c = CHR 0x09 \<or> c = CHR 0x0A \<or> c = CHR 0x0D)"

definition skip_ws :: "string \<Rightarrow> string" where
  "skip_ws s = dropWhile json_ws s"

definition hexval :: "char \<Rightarrow> nat option" where
  "hexval c =
     (let n = (of_char c :: nat)
      in if 48 \<le> n \<and> n \<le> 57 then Some (n - 48)
         else if 97 \<le> n \<and> n \<le> 102 then Some (n - 87)
         else if 65 \<le> n \<and> n \<le> 70 then Some (n - 55)
         else None)"

text \<open>The character that follows a backslash, other than \<^verbatim>\<open>u\<close>.\<close>

definition unescape :: "char \<Rightarrow> char option" where
  "unescape e =
     (if e = CHR 0x22 then Some (CHR 0x22)
      else if e = CHR 0x5C then Some (CHR 0x5C)
      else if e = CHR ''/'' then Some (CHR ''/'')
      else if e = CHR ''b'' then Some (CHR 0x08)
      else if e = CHR ''f'' then Some (CHR 0x0C)
      else if e = CHR ''n'' then Some (CHR 0x0A)
      else if e = CHR ''r'' then Some (CHR 0x0D)
      else if e = CHR ''t'' then Some (CHR 0x09)
      else None)"

text \<open>
  \<^verbatim>\<open>\uXXXX\<close>: four hexadecimal digits give a code point; a code point from U+0100 on is
  outside the characters of the model and is refused here.
\<close>

definition decode_uXXXX :: "string \<Rightarrow> char option" where
  "decode_uXXXX hs =
     (case map hexval hs of
        [Some a, Some b, Some c, Some d] \<Rightarrow>
          (let n = ((a * 16 + b) * 16 + c) * 16 + d in if n < 256 then Some (char_of n) else None)
      | _ \<Rightarrow> None)"

text \<open>
  \<open>scanstring\<close> reads a string literal from behind its opening quote and returns the
  string with the input behind the closing quote. A character below U+0020 inside the
  literal is an error, and so is the end of the input.
\<close>

function scanstring :: "string \<Rightarrow> (string \<times> string) option" where
  "scanstring [] = None"
| "scanstring (c # cs) =
     (if c = CHR 0x22 then Some ([], cs)
      else if c = CHR 0x5C then
        (case cs of
           [] \<Rightarrow> None
         | e # es \<Rightarrow>
             if e = CHR ''u'' then
               (case decode_uXXXX (take 4 es) of
                  None \<Rightarrow> None
                | Some d \<Rightarrow> map_option (\<lambda>(t, r). (d # t, r)) (scanstring (drop 4 es)))
             else
               (case unescape e of
                  None \<Rightarrow> None
                | Some d \<Rightarrow> map_option (\<lambda>(t, r). (d # t, r)) (scanstring es)))
      else if (of_char c :: nat) < 32 then None
      else map_option (\<lambda>(t, r). (c # t, r)) (scanstring cs))"
  by pat_completeness auto
termination
  by (relation "measure length") auto

text \<open>
  The scanner: \<open>ScanOnce\<close> reads one value; \<open>ArrayLoop vs\<close> is the loop of the array
  reader with the values read so far; \<open>ObjectLoop kvs\<close> is the loop of the object reader
  behind the opening quote of a key, with the pairs read so far. The result is the value
  with the input behind it; \<open>None\<close> is a \<^verbatim>\<open>JSONDecodeError\<close>, or a value of a kind that no
  calendar file holds (numbers, \<^verbatim>\<open>true\<close>, \<^verbatim>\<open>false\<close>).
\<close>

datatype mode = ScanOnce | ArrayLoop "json list" | ObjectLoop "(string \<times> json) list"

text \<open>\<^verbatim>\<open>dict(pairs)\<close>: a later pair with the same key replaces the value of the earlier one.\<close>

fun dict_update :: "string \<Rightarrow> json \<Rightarrow> (string \<times> json) list \<Rightarrow> (string \<times> json) list" where
  "dict_update k v [] = [(k, v)]"
| "dict_update k v (p # ps) = (if fst p = k then (k, v) # ps else p # dict_update k v ps)"

definition dict :: "(string \<times> json) list \<Rightarrow> (string \<times> json) list" where
  "dict pairs = foldl (\<lambda>d (k, v). dict_update k v d) [] pairs"

partial_function (option) scanner :: "mode \<Rightarrow> string \<Rightarrow> (json \<times> string) option" where
  "scanner m s =
     (case m of
        ScanOnce \<Rightarrow>
          (case s of
             [] \<Rightarrow> None
           | c # cs \<Rightarrow>
               if c = CHR 0x22 then
                 (case scanstring cs of None \<Rightarrow> None | Some (t, r) \<Rightarrow> Some (JString t, r))
               else if c = CHR ''{'' then
                 (case skip_ws cs of
                    [] \<Rightarrow> None
                  | d # r \<Rightarrow>
                      if d = CHR ''}'' then Some (JObject [], r)
                      else if d = CHR 0x22 then scanner (ObjectLoop []) r
                      else None)
               else if c = CHR ''['' then
                 (case skip_ws cs of
                    [] \<Rightarrow> None
                  | d # r \<Rightarrow>
                      if d = CHR '']'' then Some (JArray [], r)
                      else scanner (ArrayLoop []) (d # r))
               else if take 4 s = ''null'' then Some (JNull, drop 4 s)
               else None)
      | ArrayLoop vs \<Rightarrow>
          Option.bind (scanner ScanOnce s) (\<lambda>(v, r).
            case skip_ws r of
              [] \<Rightarrow> None
            | d # r' \<Rightarrow>
                if d = CHR '']'' then Some (JArray (vs @ [v]), r')
                else if d = CHR '','' then scanner (ArrayLoop (vs @ [v])) (skip_ws r')
                else None)
      | ObjectLoop kvs \<Rightarrow>
          (case scanstring s of
             None \<Rightarrow> None
           | Some (key, r) \<Rightarrow>
               (case skip_ws r of
                  [] \<Rightarrow> None
                | d # r' \<Rightarrow>
                    if d = CHR '':'' then
                      Option.bind (scanner ScanOnce (skip_ws r')) (\<lambda>(v, r'').
                        case skip_ws r'' of
                          [] \<Rightarrow> None
                        | e # t \<Rightarrow>
                            if e = CHR ''}'' then Some (JObject (dict (kvs @ [(key, v)])), t)
                            else if e = CHR '','' then
                              (case skip_ws t of
                                 [] \<Rightarrow> None
                               | q # t' \<Rightarrow>
                                   if q = CHR 0x22 then scanner (ObjectLoop (kvs @ [(key, v)])) t'
                                   else None)
                            else None)
                    else None)))"

declare scanner.simps [code]

text \<open>
  \<^verbatim>\<open>json.load(f)\<close> on the text of the file: one value with whitespace around it and nothing
  else.
\<close>

definition json_load :: "string \<Rightarrow> json option" where
  "json_load s =
     (case scanner ScanOnce (skip_ws s) of
        None \<Rightarrow> None
      | Some (v, r) \<Rightarrow> if skip_ws r = [] then Some v else None)"

section \<open>Notions used in the statements\<close>

text \<open>The entry blocks that the loop of \<open>fetch_calendar\<close> visits, in document order.\<close>

definition calendar_items :: "node \<Rightarrow> node list" where
  "calendar_items soup =
     (case find_tag ''section'' (Some ''calendar'') soup of
        None \<Rightarrow> []
      | Some calendar \<Rightarrow> find_all ''div'' (Some ''calendar-item'') calendar)"

text \<open>The detail block of an entry, and the first bold token of the detail block.\<close>

definition details_div :: "node \<Rightarrow> node option" where
  "details_div item =
     (case find_tag ''div'' (Some ''calendar-item-content'') item of
        None \<Rightarrow> None
      | Some content_div \<Rightarrow> find_tag ''div'' None content_div)"

definition first_bold :: "node \<Rightarrow> node option" where
  "first_bold item = (case details_div item of None \<Rightarrow> None | Some d \<Rightarrow> find_tag ''strong'' None d)"

text \<open>
  A text has the date pattern when some part of it is a date of four, two and two digits
  with hyphens between them, then optional whitespace, a bar, optional whitespace and a
  word of at least one word character.
\<close>

definition has_date_pattern :: "string \<Rightarrow> bool" where
  "has_date_pattern s \<longleftrightarrow>
     (\<exists>pre y m d ws1 ws2 w post.
        s = pre @ y @ ''-'' @ m @ ''-'' @ d @ ws1 @ ''|'' @ ws2 @ w @ post
        \<and> length y = 4 \<and> length m = 2 \<and> length d = 2
        \<and> list_all is_digit y \<and> list_all is_digit m \<and> list_all is_digit d
        \<and> list_all is_space ws1 \<and> list_all is_space ws2
        \<and> w \<noteq> [] \<and> list_all is_word w)"

text \<open>
  A well-formed entry: it has a meta block whose text has the date pattern, and a content
  block.
\<close>

definition well_formed :: "node \<Rightarrow> bool" where
  "well_formed item =
     (case find_tag ''div'' (Some ''meta'') item of
        None \<Rightarrow> False
      | Some meta \<Rightarrow>
          has_date_pattern (get_text meta)
          \<and> find_tag ''div'' (Some ''calendar-item-content'') item \<noteq> None)"

text \<open>
  The strings that a pattern matches from the start, as a set: the declarative reading of
  a pattern, against which the matcher is checked.
\<close>

fun count_ok :: "quant \<Rightarrow> nat \<Rightarrow> bool" where
  "count_ok Once n = (n = 1)"
| "count_ok (Exactly k) n = (n = k)"
| "count_ok Star n = True"
| "count_ok Plus n = (1 \<le> n)"

fun lang :: "item list \<Rightarrow> string set" where
  "lang [] = {[]}"
| "lang (GroupStart # p) = lang p"
| "lang (GroupEnd # p) = lang p"
| "lang (Rep a q # p) =
     {u @ v |u v. list_all (atom_ok a) u \<and> count_ok q (length u) \<and> v \<in> lang p}"

text \<open>
  For the proof that the reader inverts the writer: a value is well-formed when the keys
  of each of its dictionaries are distinct; \<open>pair_text\<close> is the text of one key with its
  value, \<open>sep\<close> the text between two elements.
\<close>

fun wf_json :: "json \<Rightarrow> bool" where
  "wf_json JNull = True"
| "wf_json (JString s) = True"
| "wf_json (JArray vs) = list_all wf_json vs"
| "wf_json (JObject kvs) = (distinct (map fst kvs) \<and> list_all (\<lambda>kv. wf_json (snd kv)) kvs)"

definition pair_text :: "nat \<Rightarrow> string \<times> json \<Rightarrow> string" where
  "pair_text l kv = encode_basestring (fst kv) @ '': '' @ encode l (snd kv)"

definition sep :: "nat \<Rightarrow> string" where
  "sep l = '','' @ newline_indent l"

section \<open>Example documents\<close>

text \<open>Builders for the blocks of the calendar page.\<close>

definition div_class :: "string \<Rightarrow> node list \<Rightarrow> node" where
  "div_class c cs = Tag ''div'' [(''class'', Multi [c])] cs"

definition bold :: "string \<Rightarrow> node" where
  "bold s = Tag ''strong'' [] [Text s]"

definition entry :: "string \<Rightarrow> node list \<Rightarrow> node" where
  "entry meta_text content =
     div_class ''calendar-item''
       [div_class ''meta'' [Text meta_text], div_class ''calendar-item-content'' content]"

definition page :: "node list \<Rightarrow> node" where
  "page items =
     Tag ''[document]'' []
       [Tag ''html'' []
          [Tag ''body'' [] [Tag ''section'' [(''class'', Multi [''calendar''])] items]]]"

text \<open>
  The end-to-end example of the specification: one entry, meta text
  \<^verbatim>\<open>2026-02-20 | Fredag\<close>, the heading, and a detail block with \<^verbatim>\<open>Tid:\<close> and \<^verbatim>\<open>18:00\<close> only.
  The fifth letter of the heading is U+00E5.
\<close>

definition aftonsang :: string where
  "aftonsang = ''Aftons'' @ [CHR 0xE5] @ ''ng''"

definition example_meta :: node where
  "example_meta = div_class ''meta'' [Text ''2026-02-20 | Fredag'']"

definition example_h3 :: node where
  "example_h3 = Tag ''h3'' [] [Text aftonsang]"

definition example_details :: node where
  "example_details = Tag ''div'' [] [bold ''Tid:'', Text '' 18:00'']"

definition example_content :: node where
  "example_content = div_class ''calendar-item-content'' [example_h3, example_details]"

definition example_item :: node where
  "example_item = div_class ''calendar-item'' [example_meta, example_content]"

definition example_section :: node where
  "example_section = Tag ''section'' [(''class'', Multi [''calendar''])] [example_item]"

definition example_soup :: node where
  "example_soup = Tag ''[document]'' [] [Tag ''html'' [] [Tag ''body'' [] [example_section]]]"

text \<open>An entry whose first bold token is \<^verbatim>\<open>Plats:\<close>, with another bold token after it.\<close>

definition plats_first_item :: node where
  "plats_first_item =
     entry ''2026-03-01 | Sondag''
       [Tag ''h3'' [] [Text ''Liturgi''],
        Tag ''div'' []
          [bold ''Plats:'', Text '' Kyrkan'', Tag ''br'' [] [], bold ''Inbjuden predikant'']]"

text \<open>An entry whose first bold token is a free label.\<close>

definition feast_first_item :: node where
  "feast_first_item =
     entry ''2026-03-01 | Sondag''
       [Tag ''h3'' [] [Text ''Liturgi''],
        Tag ''div'' []
          [bold ''Inbjuden predikant'', Tag ''br'' [] [], bold ''Plats:'', Text '' Kyrkan'',
           Tag ''br'' [] [], bold ''Tid:'', Text '' 10:00'',
           Tag ''p'' [] [Text ''Kaffe efter.'']]]"

text \<open>An entry with the heading \<^verbatim>\<open><h3></h3>\<close>.\<close>

definition empty_heading_soup :: node where
  "empty_heading_soup =
     page [entry ''2026-02-20 | Fredag''
             [Tag ''h3'' [] [],
              Tag ''div'' [] [bold ''Tid:'', Text '' 18:00'']]]"

text \<open>An entry with the detail block \<^verbatim>\<open><strong>Plats:</strong> <br/><strong>Tid:</strong> 18:00\<close>.\<close>

definition blank_place_soup :: node where
  "blank_place_soup =
     page [entry ''2026-02-20 | Fredag''
             [Tag ''h3'' [] [Text ''Vesper''],
              Tag ''div'' []
                [bold ''Plats:'', Text '' '', Tag ''br'' [] [], bold ''Tid:'', Text '' 18:00'']]]"

text \<open>Entries that the loop skips.\<close>

definition no_date_item :: node where
  "no_date_item = entry ''20 februari | Fredag'' [Tag ''h3'' [] [Text ''Vesper'']]"

definition no_meta_item :: node where
  "no_meta_item =
     div_class ''calendar-item'' [div_class ''calendar-item-content'' [Tag ''h3'' [] [Text ''Vesper'']]]"

definition no_content_item :: node where
  "no_content_item = div_class ''calendar-item'' [div_class ''meta'' [Text ''2026-02-20 | Fredag'']]"

text \<open>A page without a calendar section, and a page whose calendar section has no entry.\<close>

definition no_section_soup :: node where
  "no_section_soup = Tag ''[document]'' [] [Tag ''html'' [] [Tag ''body'' [] [Tag ''p'' [] [Text ''Hej'']]]]"

definition empty_section_soup :: node where
  "empty_section_soup = page [Tag ''h2'' [] [Text ''Kalender'']]"

text \<open>Two well-formed entries with an entry without a date between them.\<close>

definition vesper_entry :: node where
  "vesper_entry = entry ''2026-02-21 | Lordag'' [Tag ''h3'' [] [Text ''Vesper'']]"

definition liturgi_entry :: node where
  "liturgi_entry = entry ''2026-02-20 | Fredag'' [Tag ''h3'' [] [Text ''Liturgi'']]"

definition three_entries_soup :: node where
  "three_entries_soup = page [vesper_entry, no_date_item, liturgi_entry]"

definition two_entries_soup :: node where
  "two_entries_soup = page [vesper_entry, liturgi_entry]"

section \<open>The matcher finds what the pattern describes\<close>

lemma lang_Rep_iff:
  "w \<in> lang (Rep a q # p) \<longleftrightarrow>
     (\<exists>u v. w = u @ v \<and> list_all (atom_ok a) u \<and> count_ok q (length u) \<and> v \<in> lang p)"
  by auto

lemma match_sound: "match_items p s = Some ms \<Longrightarrow> \<exists>u v. s = u @ v \<and> u \<in> lang p"
proof (induction p s arbitrary: ms rule: match_items.induct)
  case (1 s)
  then show ?case by simp
next
  case (2 p s)
  then show ?case by auto
next
  case (3 p s)
  then show ?case by auto
next
  case (4 a p)
  then show ?case by simp
next
  case (5 a p c cs)
  then have ok: "atom_ok a c" and m: "match_items p cs = Some ms"
    by (auto split: if_splits)
  from "5.IH"[OF ok m] obtain u v where "cs = u @ v" "u \<in> lang p" by blast
  then have "c # cs = ([c] @ u) @ v \<and> [c] @ u \<in> lang (Rep a Once # p)"
    using ok unfolding lang_Rep_iff by (intro conjI exI[of _ "[c]"] exI[of _ u]) auto
  then show ?case by blast
next
  case (6 a p s)
  then obtain u v where "s = u @ v" "u \<in> lang p" by auto
  then have "s = u @ v \<and> u \<in> lang (Rep a (Exactly 0) # p)"
    unfolding lang_Rep_iff by (intro conjI exI[of _ "[]"] exI[of _ u]) auto
  then show ?case by blast
next
  case (7 a n p)
  then show ?case by simp
next
  case (8 a n p c cs)
  then have ok: "atom_ok a c" and m: "match_items (Rep a (Exactly n) # p) cs = Some ms"
    by (auto split: if_splits)
  from "8.IH"[OF ok m] obtain w v where w: "cs = w @ v" "w \<in> lang (Rep a (Exactly n) # p)" by blast
  then obtain u1 u2 where u: "w = u1 @ u2" "list_all (atom_ok a) u1" "length u1 = n" "u2 \<in> lang p"
    unfolding lang_Rep_iff by auto
  have "c # w \<in> lang (Rep a (Exactly (Suc n)) # p)"
    unfolding lang_Rep_iff using u ok by (intro exI[of _ "c # u1"] exI[of _ u2]) auto
  then show ?case using w by (intro exI[of _ "c # w"] exI[of _ v]) auto
next
  case (9 a p)
  then obtain u v where "[] = u @ v" "u \<in> lang p" by auto
  then have "[] \<in> lang (Rep a Star # p)"
    unfolding lang_Rep_iff by (intro exI[of _ "[]"]) auto
  then show ?case by (intro exI[of _ "[]"]) auto
next
  case (10 a p c cs)
  show ?case
  proof (cases "atom_ok a c \<and> match_items (Rep a Star # p) cs \<noteq> None")
    case True
    then have ok: "atom_ok a c" and m: "match_items (Rep a Star # p) cs = Some ms"
      using "10.prems" by (auto split: option.splits)
    from "10.IH"(1)[OF ok m] obtain w v where w: "cs = w @ v" "w \<in> lang (Rep a Star # p)" by blast
    then obtain u1 u2 where u: "w = u1 @ u2" "list_all (atom_ok a) u1" "u2 \<in> lang p"
      unfolding lang_Rep_iff by auto
    have "c # w \<in> lang (Rep a Star # p)"
      unfolding lang_Rep_iff using u ok by (intro exI[of _ "c # u1"] exI[of _ u2]) auto
    then show ?thesis using w by (intro exI[of _ "c # w"] exI[of _ v]) auto
  next
    case False
    then have m: "match_items p (c # cs) = Some ms"
      using "10.prems" by (auto split: option.splits if_splits)
    have "\<exists>u v. c # cs = u @ v \<and> u \<in> lang p"
    proof (cases "atom_ok a c")
      case True
      with False have "match_items (Rep a Star # p) cs = None" by simp
      from "10.IH"(2)[OF True this m] show ?thesis .
    next
      case False
      from "10.IH"(3)[OF False m] show ?thesis .
    qed
    then obtain u v where "c # cs = u @ v" "u \<in> lang p" by blast
    then have "c # cs = u @ v \<and> u \<in> lang (Rep a Star # p)"
      unfolding lang_Rep_iff by (intro conjI exI[of _ "[]"] exI[of _ u]) auto
    then show ?thesis by blast
  qed
next
  case (11 a p)
  then show ?case by simp
next
  case (12 a p c cs)
  then have ok: "atom_ok a c" and m: "match_items (Rep a Star # p) cs = Some ms"
    by (auto split: if_splits)
  from "12.IH"[OF ok m] obtain w v where w: "cs = w @ v" "w \<in> lang (Rep a Star # p)" by blast
  then obtain u1 u2 where u: "w = u1 @ u2" "list_all (atom_ok a) u1" "u2 \<in> lang p"
    unfolding lang_Rep_iff by auto
  have "c # w \<in> lang (Rep a Plus # p)"
    unfolding lang_Rep_iff using u ok by (intro exI[of _ "c # u1"] exI[of _ u2]) auto
  then show ?case using w by (intro exI[of _ "c # w"] exI[of _ v]) auto
qed


lemma match_complete: "u \<in> lang p \<Longrightarrow> s = u @ v \<Longrightarrow> match_items p s \<noteq> None"
proof (induction p s arbitrary: u v rule: match_items.induct)
  case (1 s)
  then show ?case by simp
next
  case (2 p s)
  then show ?case by auto
next
  case (3 p s)
  then show ?case by auto
next
  case (4 a p)
  then show ?case by (auto simp: lang_Rep_iff)
next
  case (5 a p c cs)
  from "5.prems" obtain u1 u2 where u: "u = u1 @ u2" "list_all (atom_ok a) u1" "length u1 = 1" "u2 \<in> lang p"
    unfolding lang_Rep_iff by auto
  then obtain d where d: "u1 = [d]" by (cases u1) auto
  with u "5.prems" have ok: "atom_ok a c" and cs: "cs = u2 @ v" by auto
  from "5.IH"[OF ok u(4) cs] ok show ?case by simp
next
  case (6 a p s)
  then have "u \<in> lang p" by (auto simp: lang_Rep_iff)
  from "6.IH"[OF this "6.prems"(2)] show ?case by simp
next
  case (7 a n p)
  then show ?case by (auto simp: lang_Rep_iff)
next
  case (8 a n p c cs)
  from "8.prems" obtain u1 u2 where u: "u = u1 @ u2" "list_all (atom_ok a) u1" "length u1 = Suc n" "u2 \<in> lang p"
    unfolding lang_Rep_iff by auto
  then obtain d ds where d: "u1 = d # ds" by (cases u1) auto
  with u "8.prems" have ok: "atom_ok a c" and cs: "cs = (ds @ u2) @ v" by auto
  have "ds @ u2 \<in> lang (Rep a (Exactly n) # p)"
    unfolding lang_Rep_iff using u d by (intro exI[of _ ds] exI[of _ u2]) auto
  from "8.IH"[OF ok this cs] ok show ?case by simp
next
  case (9 a p)
  then have "[] \<in> lang p" by (auto simp: lang_Rep_iff)
  from "9.IH"[OF this] show ?case by simp
next
  case (10 a p c cs)
  from "10.prems" obtain u1 u2 where u: "u = u1 @ u2" "list_all (atom_ok a) u1" "u2 \<in> lang p"
    unfolding lang_Rep_iff by auto
  show ?case
  proof (cases u1)
    case Nil
    with u "10.prems" have e: "c # cs = u2 @ v" by simp
    show ?thesis
    proof (cases "atom_ok a c")
      case True
      show ?thesis
      proof (cases "match_items (Rep a Star # p) cs")
        case None
        from "10.IH"(2)[OF True None u(3) e] True None show ?thesis by simp
      next
        case (Some ms)
        with True show ?thesis by simp
      qed
    next
      case False
      from "10.IH"(3)[OF False u(3) e] False show ?thesis by simp
    qed
  next
    case (Cons d ds)
    with u "10.prems" have ok: "atom_ok a c" and cs: "cs = (ds @ u2) @ v" by auto
    have "ds @ u2 \<in> lang (Rep a Star # p)"
      unfolding lang_Rep_iff using u Cons by (intro exI[of _ ds] exI[of _ u2]) auto
    from "10.IH"(1)[OF ok this cs] ok show ?thesis by (auto split: option.splits)
  qed
next
  case (11 a p)
  then show ?case by (auto simp: lang_Rep_iff)
next
  case (12 a p c cs)
  from "12.prems" obtain u1 u2 where u: "u = u1 @ u2" "list_all (atom_ok a) u1" "1 \<le> length u1" "u2 \<in> lang p"
    unfolding lang_Rep_iff by auto
  then obtain d ds where d: "u1 = d # ds" by (cases u1) auto
  with u "12.prems" have ok: "atom_ok a c" and cs: "cs = (ds @ u2) @ v" by auto
  have "ds @ u2 \<in> lang (Rep a Star # p)"
    unfolding lang_Rep_iff using u d by (intro exI[of _ ds] exI[of _ u2]) auto
  from "12.IH"[OF ok this cs] ok show ?case by simp
qed

lemma match_iff: "match_items p s \<noteq> None \<longleftrightarrow> (\<exists>u v. s = u @ v \<and> u \<in> lang p)"
  using match_sound match_complete by blast

lemma re_search_iff:
  "re_search p s \<noteq> None \<longleftrightarrow> (\<exists>pre u post. s = pre @ u @ post \<and> u \<in> lang p)"
proof (induction s)
  case Nil
  show ?case using match_iff[of p "[]"] by auto
next
  case (Cons c cs)
  have "re_search p (c # cs) \<noteq> None \<longleftrightarrow> match_items p (c # cs) \<noteq> None \<or> re_search p cs \<noteq> None"
    by (simp split: option.splits)
  also have "\<dots> \<longleftrightarrow> (\<exists>u v. c # cs = u @ v \<and> u \<in> lang p) \<or> (\<exists>pre u post. cs = pre @ u @ post \<and> u \<in> lang p)"
    by (simp only: match_iff Cons.IH)
  also have "\<dots> \<longleftrightarrow> (\<exists>pre u post. c # cs = pre @ u @ post \<and> u \<in> lang p)"
  proof
    assume "(\<exists>u v. c # cs = u @ v \<and> u \<in> lang p) \<or> (\<exists>pre u post. cs = pre @ u @ post \<and> u \<in> lang p)"
    then show "\<exists>pre u post. c # cs = pre @ u @ post \<and> u \<in> lang p"
    proof
      assume "\<exists>u v. c # cs = u @ v \<and> u \<in> lang p"
      then obtain u v where "c # cs = [] @ u @ v" "u \<in> lang p" by auto
      then show ?thesis by blast
    next
      assume "\<exists>pre u post. cs = pre @ u @ post \<and> u \<in> lang p"
      then obtain pre u post where "c # cs = (c # pre) @ u @ post" "u \<in> lang p" by auto
      then show ?thesis by blast
    qed
  next
    assume "\<exists>pre u post. c # cs = pre @ u @ post \<and> u \<in> lang p"
    then obtain pre u post where e: "c # cs = pre @ u @ post" and u: "u \<in> lang p" by blast
    show "(\<exists>u v. c # cs = u @ v \<and> u \<in> lang p) \<or> (\<exists>pre u post. cs = pre @ u @ post \<and> u \<in> lang p)"
    proof (cases pre)
      case Nil
      with e u show ?thesis by auto
    next
      case (Cons d ds)
      with e have "cs = ds @ u @ post" by simp
      with u show ?thesis by blast
    qed
  qed
  finally show ?case .
qed

lemma lang_Lit_Once: "u \<in> lang (Rep (Lit d) Once # p) \<longleftrightarrow> (\<exists>v. u = d # v \<and> v \<in> lang p)"
proof
  assume "u \<in> lang (Rep (Lit d) Once # p)"
  then obtain u1 v where u: "u = u1 @ v" "list_all (atom_ok (Lit d)) u1" "length u1 = 1" "v \<in> lang p"
    unfolding lang_Rep_iff by auto
  then have "u1 = [d]" by (cases u1) auto
  with u show "\<exists>v. u = d # v \<and> v \<in> lang p" by simp
next
  assume "\<exists>v. u = d # v \<and> v \<in> lang p"
  then obtain v where "u = [d] @ v" "v \<in> lang p" by auto
  then show "u \<in> lang (Rep (Lit d) Once # p)"
    unfolding lang_Rep_iff by (intro exI[of _ "[d]"] exI[of _ v]) auto
qed

lemma lang_Nil: "u \<in> lang [] \<longleftrightarrow> u = []"
  by simp

lemma lang_Group: "u \<in> lang (GroupStart # p) \<longleftrightarrow> u \<in> lang p" "u \<in> lang (GroupEnd # p) \<longleftrightarrow> u \<in> lang p"
  by simp_all

lemma lang_Exactly:
  "u \<in> lang (Rep a (Exactly n) # p) \<longleftrightarrow>
     (\<exists>x v. u = x @ v \<and> length x = n \<and> list_all (atom_ok a) x \<and> v \<in> lang p)"
  unfolding lang_Rep_iff by auto

lemma lang_Star:
  "u \<in> lang (Rep a Star # p) \<longleftrightarrow> (\<exists>x v. u = x @ v \<and> list_all (atom_ok a) x \<and> v \<in> lang p)"
  unfolding lang_Rep_iff by auto

lemma lang_Plus:
  "u \<in> lang (Rep a Plus # p) \<longleftrightarrow>
     (\<exists>x v. u = x @ v \<and> x \<noteq> [] \<and> list_all (atom_ok a) x \<and> v \<in> lang p)"
  unfolding lang_Rep_iff by (auto simp: Suc_le_eq)

lemma lang_date_re:
  "u \<in> lang date_re \<longleftrightarrow>
     (\<exists>y m d ws1 ws2 w.
        u = y @ ''-'' @ m @ ''-'' @ d @ ws1 @ ''|'' @ ws2 @ w
        \<and> length y = 4 \<and> length m = 2 \<and> length d = 2
        \<and> list_all is_digit y \<and> list_all is_digit m \<and> list_all is_digit d
        \<and> list_all is_space ws1 \<and> list_all is_space ws2
        \<and> w \<noteq> [] \<and> list_all is_word w)"
proof -
  have a: "atom_ok Digit = is_digit" "atom_ok Space = is_space" "atom_ok Word = is_word"
    by (auto simp: fun_eq_iff)
  show ?thesis
    unfolding date_re_def
    apply (simp only: lang_Nil lang_Group lang_Lit_Once lang_Exactly lang_Star lang_Plus a)
    apply (rule iffI)
     apply (elim exE conjE)
    subgoal for x v va xa vb vc xb vd xc ve vf xd vg xe vh
      apply (rule exI[of _ x], rule exI[of _ xa], rule exI[of _ xb], rule exI[of _ xc],
             rule exI[of _ xd], rule exI[of _ xe])
      apply simp
      done
    apply (elim exE conjE)
    subgoal for y m d ws1 ws2 w
      apply (rule exI[of _ y], rule exI[of _ "''-'' @ m @ ''-'' @ d @ ws1 @ ''|'' @ ws2 @ w"], simp)
      apply (rule exI[of _ m], rule exI[of _ "''-'' @ d @ ws1 @ ''|'' @ ws2 @ w"], simp)
      apply (rule exI[of _ d], rule exI[of _ "ws1 @ ''|'' @ ws2 @ w"], simp)
      apply (rule exI[of _ ws1], rule exI[of _ "''|'' @ ws2 @ w"], simp)
      apply (rule exI[of _ ws2], rule exI[of _ w], simp)
      done
    done
qed

lemma has_date_pattern_iff: "has_date_pattern s \<longleftrightarrow> re_search date_re s \<noteq> None"
proof -
  have "has_date_pattern s \<longleftrightarrow> (\<exists>pre u post. s = pre @ u @ post \<and> u \<in> lang date_re)"
    unfolding has_date_pattern_def lang_date_re
    apply (rule iffI)
     apply (elim exE conjE)
    subgoal for pre y m d ws1 ws2 w post
      apply (rule exI[of _ pre], rule exI[of _ "y @ ''-'' @ m @ ''-'' @ d @ ws1 @ ''|'' @ ws2 @ w"], rule exI[of _ post])
      apply simp
      apply blast
      done
    apply (elim exE conjE)
    subgoal for pre u post y m d ws1 ws2 w
      apply (rule exI[of _ pre], rule exI[of _ y], rule exI[of _ m], rule exI[of _ d],
             rule exI[of _ ws1], rule exI[of _ ws2], rule exI[of _ w], rule exI[of _ post])
      apply simp
      done
    done
  then show ?thesis by (simp only: re_search_iff)
qed


section \<open>The loop\<close>

lemma collect_acc: "collect items acc = acc @ collect items []"
proof (induction items arbitrary: acc)
  case Nil
  show ?case by simp
next
  case (Cons item items)
  show ?case
  proof (cases "item_service item")
    case None
    with Cons.IH[of acc] show ?thesis by simp
  next
    case (Some r)
    with Cons.IH[of "acc @ [r]"] Cons.IH[of "[r]"] show ?thesis by simp
  qed
qed

lemma collect_map_filter: "collect items [] = List.map_filter item_service items"
proof (induction items)
  case Nil
  show ?case by (simp add: List.map_filter_simps)
next
  case (Cons item items)
  then show ?case
    using collect_acc[of items "[the (item_service item)]"]
    by (cases "item_service item") (simp_all add: List.map_filter_simps)
qed

lemma collect_skip:
  assumes "item_service item = None"
  shows "collect (xs @ item # ys) acc = collect (xs @ ys) acc"
proof -
  have "collect (xs @ item # ys) [] = collect (xs @ ys) []"
    using assms by (simp add: collect_map_filter List.map_filter_def)
  then show ?thesis
    using collect_acc[of "xs @ item # ys" acc] collect_acc[of "xs @ ys" acc] by simp
qed

lemma fetch_calendar_items: "fetch_calendar soup = List.map_filter item_service (calendar_items soup)"
  by (simp add: fetch_calendar_def calendar_items_def collect_map_filter List.map_filter_simps
           split: option.splits)

lemma item_service_None_iff:
  "item_service item = None \<longleftrightarrow>
     (case find_tag ''div'' (Some ''meta'') item of
        None \<Rightarrow> True
      | Some meta \<Rightarrow>
          re_search date_re (get_text meta) = None
          \<or> find_tag ''div'' (Some ''calendar-item-content'') item = None)"
  by (simp add: item_service_def Let_def split: option.splits prod.splits)

lemma item_service_well_formed: "item_service item \<noteq> None \<longleftrightarrow> well_formed item"
  by (simp add: item_service_None_iff well_formed_def has_date_pattern_iff split: option.splits)

lemma item_service_occasion:
  assumes "item_service item = Some r"
  shows "occasion r =
           (case first_bold item of
              None \<Rightarrow> None
            | Some s \<Rightarrow>
                if get_text s \<noteq> [] \<and> get_text s \<notin> {''Plats:'', ''Tid:''}
                then Some (get_text s) else None)"
  using assms
  by (auto simp: item_service_def first_bold_def details_div_def read_details_def Let_def
           split: option.splits prod.splits if_splits)


section \<open>The end-to-end example\<close>

lemma date_example:
  "re_search date_re ''2026-02-20 | Fredag''
     = Some [''2026-02-20 | Fredag'', '' | Fredag'', ''Fredag'', []]"
  by code_simp

lemma details_example:
  "read_details (Some (Tag ''div'' attrs [bold ''Tid:'', Text '' 18:00'']))
     = (None, Some ''18:00'', None, [])"
  by code_simp

text \<open>
  C1. For a document whose calendar section contains exactly one entry block, with the
  meta text \<^verbatim>\<open>2026-02-20 | Fredag\<close>, a content block whose heading has the text of the
  service name, and a detail block that holds only the bold label \<^verbatim>\<open>Tid:\<close> followed by the
  text \<^verbatim>\<open>18:00\<close>, extraction returns exactly one record, with that date, weekday, service
  name and time, and with location, occasion and notes unset.
\<close>

theorem example_extraction:
  assumes "find_tag ''section'' (Some ''calendar'') soup = Some calendar"
    and "find_all ''div'' (Some ''calendar-item'') calendar = [item]"
    and "find_tag ''div'' (Some ''meta'') item = Some meta"
    and "get_text meta = ''2026-02-20 | Fredag''"
    and "find_tag ''div'' (Some ''calendar-item-content'') item = Some content_div"
    and "find_tag ''h3'' None content_div = Some h3"
    and "get_text h3 = aftonsang"
    and "find_tag ''div'' None content_div = Some (Tag ''div'' attrs [bold ''Tid:'', Text '' 18:00''])"
  shows "fetch_calendar soup =
     [\<lparr>date = ''2026-02-20'', day_of_week = ''Fredag'', service_name = aftonsang,
       location = None, time = Some ''18:00'', occasion = None, notes_text = None\<rparr>]"
proof -
  have "item_service item =
     Some \<lparr>date = ''2026-02-20'', day_of_week = ''Fredag'', service_name = aftonsang,
       location = None, time = Some ''18:00'', occasion = None, notes_text = None\<rparr>"
    by (simp add: item_service_def assms date_example details_example match_group_def
             del: re_search.simps)
  then show ?thesis
    by (simp add: fetch_calendar_def assms(1,2))
qed

theorem example_extraction_witness:
  "find_tag ''section'' (Some ''calendar'') example_soup = Some example_section
   \<and> find_all ''div'' (Some ''calendar-item'') example_section = [example_item]
   \<and> find_tag ''div'' (Some ''meta'') example_item = Some example_meta
   \<and> get_text example_meta = ''2026-02-20 | Fredag''
   \<and> find_tag ''div'' (Some ''calendar-item-content'') example_item = Some example_content
   \<and> find_tag ''h3'' None example_content = Some example_h3
   \<and> get_text example_h3 = aftonsang
   \<and> find_tag ''div'' None example_content = Some (Tag ''div'' [] [bold ''Tid:'', Text '' 18:00''])
   \<and> fetch_calendar example_soup =
     [\<lparr>date = ''2026-02-20'', day_of_week = ''Fredag'', service_name = aftonsang,
       location = None, time = Some ''18:00'', occasion = None, notes_text = None\<rparr>]"
proof -
  have h1: "find_tag ''section'' (Some ''calendar'') example_soup = Some example_section"
    by code_simp
  have h2: "find_all ''div'' (Some ''calendar-item'') example_section = [example_item]"
    by code_simp
  have h3: "find_tag ''div'' (Some ''meta'') example_item = Some example_meta"
    by code_simp
  have h4: "get_text example_meta = ''2026-02-20 | Fredag''"
    by code_simp
  have h5: "find_tag ''div'' (Some ''calendar-item-content'') example_item = Some example_content"
    by code_simp
  have h6: "find_tag ''h3'' None example_content = Some example_h3"
    by code_simp
  have h7: "get_text example_h3 = aftonsang"
    by code_simp
  have h8: "find_tag ''div'' None example_content = Some (Tag ''div'' [] [bold ''Tid:'', Text '' 18:00''])"
    by code_simp
  from example_extraction[OF h1 h2 h3 h4 h5 h6 h7 h8] h1 h2 h3 h4 h5 h6 h7 h8
  show ?thesis by blast
qed

section \<open>The occasion\<close>

text \<open>
  C2. The occasion of an emitted record depends on the first bold token of the detail
  block only: when the text of that token is \<^verbatim>\<open>Plats:\<close> or \<^verbatim>\<open>Tid:\<close> the occasion is unset,
  whatever follows in the block; when the occasion is set, it is the text of the first
  bold token and that text is neither of the two labels.
\<close>

theorem occasion_first_bold:
  assumes "item_service item = Some r"
  shows "(\<forall>s. first_bold item = Some s \<longrightarrow> get_text s \<in> {''Plats:'', ''Tid:''} \<longrightarrow> occasion r = None)
       \<and> (\<forall>t. occasion r = Some t \<longrightarrow>
              (\<exists>s. first_bold item = Some s \<and> get_text s = t \<and> t \<notin> {''Plats:'', ''Tid:''}))
       \<and> occasion r =
           (case first_bold item of
              None \<Rightarrow> None
            | Some s \<Rightarrow>
                if get_text s \<noteq> [] \<and> get_text s \<notin> {''Plats:'', ''Tid:''}
                then Some (get_text s) else None)"
  using item_service_occasion[OF assms] by (auto split: option.splits if_splits)

theorem occasion_first_bold_witness:
  "item_service plats_first_item =
     Some \<lparr>date = ''2026-03-01'', day_of_week = ''Sondag'', service_name = ''Liturgi'',
           location = Some ''Kyrkan'', time = None, occasion = None, notes_text = None\<rparr>
   \<and> first_bold plats_first_item = Some (bold ''Plats:'')
   \<and> get_text (bold ''Plats:'') \<in> {''Plats:'', ''Tid:''}
   \<and> item_service feast_first_item =
     Some \<lparr>date = ''2026-03-01'', day_of_week = ''Sondag'', service_name = ''Liturgi'',
           location = Some ''Kyrkan'', time = Some ''10:00'',
           occasion = Some ''Inbjuden predikant'', notes_text = Some ''Kaffe efter.''\<rparr>
   \<and> first_bold feast_first_item = Some (bold ''Inbjuden predikant'')
   \<and> get_text (bold ''Inbjuden predikant'') = ''Inbjuden predikant''"
proof -
  let ?p = "\<lparr>date = ''2026-03-01'', day_of_week = ''Sondag'', service_name = ''Liturgi'',
             location = Some ''Kyrkan'', time = None, occasion = None, notes_text = None\<rparr>"
  let ?f = "\<lparr>date = ''2026-03-01'', day_of_week = ''Sondag'', service_name = ''Liturgi'',
             location = Some ''Kyrkan'', time = Some ''10:00'',
             occasion = Some ''Inbjuden predikant'', notes_text = Some ''Kaffe efter.''\<rparr>"
  have p: "item_service plats_first_item = Some ?p" by code_simp
  have f: "item_service feast_first_item = Some ?f" by code_simp
  have po: "occasion ?p = None" and fo: "occasion ?f = Some ''Inbjuden predikant''"
    by simp_all
  from occasion_first_bold[OF p] po
  have "first_bold plats_first_item = None
        \<or> (\<exists>s. first_bold plats_first_item = Some s
              \<and> \<not> (get_text s \<noteq> [] \<and> get_text s \<notin> {''Plats:'', ''Tid:''}))"
    by (cases "first_bold plats_first_item") (simp_all split: if_splits)
  moreover have pb: "first_bold plats_first_item = Some (bold ''Plats:'')" by code_simp
  moreover have pt: "get_text (bold ''Plats:'') \<in> {''Plats:'', ''Tid:''}" by code_simp
  moreover from occasion_first_bold[OF f] fo
  obtain s where "first_bold feast_first_item = Some s" "get_text s = ''Inbjuden predikant''"
    by blast
  moreover have fb: "first_bold feast_first_item = Some (bold ''Inbjuden predikant'')" by code_simp
  ultimately show ?thesis using p f by simp
qed

section \<open>The service name\<close>

lemma service_name_without_heading:
  assumes "item_service item = Some r"
    and "find_tag ''div'' (Some ''calendar-item-content'') item = Some content_div"
    and "find_tag ''h3'' None content_div = None"
  shows "service_name r = ''Unknown''"
  using assms
  by (auto simp: item_service_def Let_def split: option.splits prod.splits)

text \<open>
  C3. The service name of an emitted record is never empty. The code does not keep this:
  an entry whose heading is present and has no text gets the empty service name.
\<close>

theorem empty_heading_service_name:
  "map service_name (fetch_calendar empty_heading_soup) = ['''']"
  by code_simp

section \<open>The optional fields\<close>

lemma occasion_not_empty: "item_service item = Some r \<Longrightarrow> occasion r \<noteq> Some []"
  using item_service_occasion[of item r] by (auto split: option.splits if_splits)

lemma join_not_empty: "ns \<noteq> [] \<Longrightarrow> \<forall>n\<in>set ns. n \<noteq> [] \<Longrightarrow> join s ns \<noteq> []"
  by (induction s ns rule: join.induct) auto

lemma notes_not_empty: "item_service item = Some r \<Longrightarrow> notes_text r \<noteq> Some []"
proof -
  have n: "ns = [] \<or> join [CHR 0x0A] ns \<noteq> []"
    if "read_details d = (loc, tm, occ, ns)" for d loc tm occ ns
  proof (cases d)
    case None
    with that show ?thesis by (simp add: read_details_def)
  next
    case (Some x)
    with that have "ns = filter (\<lambda>p_text. p_text \<noteq> []) (map get_text (find_all ''p'' None x))"
      by (auto simp: read_details_def Let_def)
    then have "\<forall>n\<in>set ns. n \<noteq> []" by simp
    then show ?thesis using join_not_empty[of ns "[CHR 0x0A]"] by blast
  qed
  show "item_service item = Some r \<Longrightarrow> notes_text r \<noteq> Some []"
    by (auto simp: item_service_def Let_def dest: n split: option.splits prod.splits if_splits)
qed

text \<open>
  C4. An optional field of an emitted record is unset or a non-empty string. The code does
  not keep this for the location and the time: when only whitespace follows the label up
  to the next tag, the field is the empty string.
\<close>

theorem blank_place_location:
  "map location (fetch_calendar blank_place_soup) = [Some []]"
  by code_simp

section \<open>Entries without a date\<close>

text \<open>
  C5. An entry whose meta text has no part with the date pattern gives no record: the
  loop goes on as if the entry were not there. For every document, there are at most as
  many records as entry blocks.
\<close>

theorem no_date_no_record:
  "(find_tag ''div'' (Some ''meta'') item = Some meta \<longrightarrow> \<not> has_date_pattern (get_text meta) \<longrightarrow>
      item_service item = None \<and> collect (xs @ item # ys) acc = collect (xs @ ys) acc)
   \<and> length (fetch_calendar soup) \<le> length (calendar_items soup)"
proof -
  have "item_service item = None \<and> collect (xs @ item # ys) acc = collect (xs @ ys) acc"
    if "find_tag ''div'' (Some ''meta'') item = Some meta" "\<not> has_date_pattern (get_text meta)"
  proof -
    from that have "item_service item = None"
      by (simp add: item_service_None_iff has_date_pattern_iff)
    then show ?thesis by (simp add: collect_skip)
  qed
  moreover have "length (fetch_calendar soup) \<le> length (calendar_items soup)"
    by (simp add: fetch_calendar_items List.map_filter_def)
  ultimately show ?thesis by blast
qed

theorem no_date_no_record_witness:
  "find_tag ''div'' (Some ''meta'') no_date_item = Some (div_class ''meta'' [Text ''20 februari | Fredag''])
   \<and> \<not> has_date_pattern (get_text (div_class ''meta'' [Text ''20 februari | Fredag'']))
   \<and> item_service no_date_item = None
   \<and> collect ([vesper_entry] @ no_date_item # [liturgi_entry]) [] = collect ([vesper_entry] @ [liturgi_entry]) []
   \<and> length (fetch_calendar three_entries_soup) \<le> length (calendar_items three_entries_soup)"
proof -
  have m: "find_tag ''div'' (Some ''meta'') no_date_item = Some (div_class ''meta'' [Text ''20 februari | Fredag''])"
    by code_simp
  have "re_search date_re (get_text (div_class ''meta'' [Text ''20 februari | Fredag''])) = None"
    by code_simp
  then have d: "\<not> has_date_pattern (get_text (div_class ''meta'' [Text ''20 februari | Fredag'']))"
    by (simp add: has_date_pattern_iff)
  from no_date_no_record[of no_date_item "div_class ''meta'' [Text ''20 februari | Fredag'']"
      "[vesper_entry]" "[liturgi_entry]" "[]" three_entries_soup] m d
  show ?thesis by blast
qed

section \<open>Documents without entries\<close>

text \<open>
  C6. When the document has no calendar section, or the calendar section has no entry
  block, the result is the empty list.
\<close>

theorem no_entries_empty:
  assumes "find_tag ''section'' (Some ''calendar'') soup = None
           \<or> (\<exists>calendar. find_tag ''section'' (Some ''calendar'') soup = Some calendar
                 \<and> find_all ''div'' (Some ''calendar-item'') calendar = [])"
  shows "fetch_calendar soup = []"
  using assms by (auto simp: fetch_calendar_def)

theorem no_entries_empty_witness:
  "find_tag ''section'' (Some ''calendar'') no_section_soup = None
   \<and> fetch_calendar no_section_soup = []
   \<and> find_tag ''section'' (Some ''calendar'') empty_section_soup \<noteq> None
   \<and> find_all ''div'' (Some ''calendar-item'') (the (find_tag ''section'' (Some ''calendar'') empty_section_soup)) = []
   \<and> fetch_calendar empty_section_soup = []"
proof -
  have a: "find_tag ''section'' (Some ''calendar'') no_section_soup = None" by code_simp
  have b: "find_tag ''section'' (Some ''calendar'') empty_section_soup \<noteq> None" by code_simp
  have c: "find_all ''div'' (Some ''calendar-item'')
             (the (find_tag ''section'' (Some ''calendar'') empty_section_soup)) = []"
    by code_simp
  from b c have "\<exists>calendar. find_tag ''section'' (Some ''calendar'') empty_section_soup = Some calendar
                   \<and> find_all ''div'' (Some ''calendar-item'') calendar = []"
    by auto
  with a b c no_entries_empty[of no_section_soup] no_entries_empty[of empty_section_soup]
  show ?thesis by blast
qed

section \<open>Order\<close>

text \<open>
  C7. The records are those of the well-formed entry blocks, one for each, in the order
  of the blocks in the document: a document with N well-formed entries gives N records,
  the i-th record made from the i-th well-formed entry.
\<close>

theorem records_in_document_order:
  "map Some (fetch_calendar soup) = map item_service (filter well_formed (calendar_items soup))
   \<and> length (fetch_calendar soup) = length (filter well_formed (calendar_items soup))
   \<and> (list_all well_formed (calendar_items soup) \<longrightarrow>
        length (fetch_calendar soup) = length (calendar_items soup))"
proof -
  have wf: "well_formed item \<longleftrightarrow> item_service item \<noteq> None" for item
    using item_service_well_formed[of item] by simp
  have "map Some (List.map_filter item_service items) = map item_service (filter well_formed items)"
    for items
    by (induction items) (auto simp: List.map_filter_simps wf)
  then have a: "map Some (fetch_calendar soup) = map item_service (filter well_formed (calendar_items soup))"
    by (simp only: fetch_calendar_items)
  have "length (map Some (fetch_calendar soup)) = length (fetch_calendar soup)"
    by (rule length_map)
  with a have b: "length (fetch_calendar soup) = length (filter well_formed (calendar_items soup))"
    by simp
  have "filter well_formed (calendar_items soup) = calendar_items soup"
    if "list_all well_formed (calendar_items soup)"
    using that by (simp add: list_all_iff)
  with a b show ?thesis by auto
qed

theorem records_in_document_order_witness:
  "filter well_formed (calendar_items three_entries_soup) = [vesper_entry, liturgi_entry]
   \<and> map date (fetch_calendar three_entries_soup) = [''2026-02-21'', ''2026-02-20'']
   \<and> list_all well_formed (calendar_items two_entries_soup)
   \<and> length (fetch_calendar two_entries_soup) = length (calendar_items two_entries_soup)"
proof -
  let ?v = "\<lparr>date = ''2026-02-21'', day_of_week = ''Lordag'', service_name = ''Vesper'',
             location = None, time = None, occasion = None, notes_text = None\<rparr>"
  let ?l = "\<lparr>date = ''2026-02-20'', day_of_week = ''Fredag'', service_name = ''Liturgi'',
             location = None, time = None, occasion = None, notes_text = None\<rparr>"
  have v: "item_service vesper_entry = Some ?v" by code_simp
  have l: "item_service liturgi_entry = Some ?l" by code_simp
  have n: "item_service no_date_item = None" by code_simp
  have wf: "well_formed vesper_entry" "well_formed liturgi_entry" "\<not> well_formed no_date_item"
    using v l n by (simp_all add: item_service_well_formed[symmetric])
  have "calendar_items three_entries_soup = [vesper_entry, no_date_item, liturgi_entry]"
    by code_simp
  with wf have f: "filter well_formed (calendar_items three_entries_soup) = [vesper_entry, liturgi_entry]"
    by simp
  have "map Some (fetch_calendar three_entries_soup) = [Some ?v, Some ?l]"
    using records_in_document_order[of three_entries_soup] by (simp only: f list.map v l)
  then have "fetch_calendar three_entries_soup = [?v, ?l]"
    by (auto simp: map_eq_Cons_conv)
  then have d: "map date (fetch_calendar three_entries_soup) = [''2026-02-21'', ''2026-02-20'']"
    by simp
  have "calendar_items two_entries_soup = [vesper_entry, liturgi_entry]"
    by code_simp
  with wf have a: "list_all well_formed (calendar_items two_entries_soup)"
    by simp
  with records_in_document_order[of two_entries_soup]
  have "length (fetch_calendar two_entries_soup) = length (calendar_items two_entries_soup)"
    by blast
  with f d a show ?thesis by blast
qed

section \<open>The calendar file\<close>

lemma hexval_hexdigit: "d < 16 \<Longrightarrow> hexval (hexdigit d) = Some d"
  by (simp add: hexval_def hexdigit_def Let_def)

lemma decode_control:
  assumes "(of_char c :: nat) < 32"
  shows "decode_uXXXX [CHR ''0'', CHR ''0'', hexdigit ((of_char c :: nat) div 16),
                       hexdigit ((of_char c :: nat) mod 16)] = Some c"
proof -
  have z: "hexval CHR ''0'' = Some 0" by (simp add: hexval_def)
  have a: "hexval (hexdigit ((of_char c :: nat) div 16)) = Some ((of_char c :: nat) div 16)"
    using assms by (intro hexval_hexdigit) simp
  have b: "hexval (hexdigit ((of_char c :: nat) mod 16)) = Some ((of_char c :: nat) mod 16)"
    by (intro hexval_hexdigit) simp
  show ?thesis using assms by (simp add: decode_uXXXX_def z a b)
qed

lemma scanstring_escape_char:
  "scanstring (escape_char c @ s) = map_option (\<lambda>(t, r). (c # t, r)) (scanstring s)"
proof (cases "c = CHR 0x5C \<or> c = CHR 0x22 \<or> c = CHR 0x08 \<or> c = CHR 0x0C \<or> c = CHR 0x0A \<or> c = CHR 0x0D \<or> c = CHR 0x09")
  case True
  then show ?thesis
    by (auto simp: escape_char_def unescape_def)
next
  case False
  show ?thesis
  proof (cases "(of_char c :: nat) < 32")
    case True
    with False have e: "escape_char c = [CHR 0x5C, CHR ''u'', CHR ''0'', CHR ''0'',
              hexdigit ((of_char c :: nat) div 16), hexdigit ((of_char c :: nat) mod 16)]"
      by (simp add: escape_char_def)
    show ?thesis by (simp add: e decode_control[OF True])
  next
    case ge: False
    with False have e: "escape_char c = [c]" by (simp add: escape_char_def)
    from False ge show ?thesis by (simp add: e)
  qed
qed

lemma scanstring_body:
  "scanstring (concat (map escape_char s) @ CHR 0x22 # rest) = Some (s, rest)"
  by (induction s) (simp_all add: scanstring_escape_char)


lemma scanner_ScanOnce_Nil: "scanner ScanOnce [] = None"
  by (subst scanner.simps) simp

lemma scanner_ScanOnce_Cons:
  "scanner ScanOnce (c # cs) =
     (if c = CHR 0x22 then
        (case scanstring cs of None \<Rightarrow> None | Some (t, r) \<Rightarrow> Some (JString t, r))
      else if c = CHR ''{'' then
        (case skip_ws cs of
           [] \<Rightarrow> None
         | d # r \<Rightarrow>
             if d = CHR ''}'' then Some (JObject [], r)
             else if d = CHR 0x22 then scanner (ObjectLoop []) r
             else None)
      else if c = CHR ''['' then
        (case skip_ws cs of
           [] \<Rightarrow> None
         | d # r \<Rightarrow>
             if d = CHR '']'' then Some (JArray [], r)
             else scanner (ArrayLoop []) (d # r))
      else if take 4 (c # cs) = ''null'' then Some (JNull, drop 4 (c # cs))
      else None)"
  by (subst scanner.simps) simp

lemma scanner_ArrayLoop:
  "scanner (ArrayLoop vs) s =
     Option.bind (scanner ScanOnce s) (\<lambda>(v, r).
       case skip_ws r of
         [] \<Rightarrow> None
       | d # r' \<Rightarrow>
           if d = CHR '']'' then Some (JArray (vs @ [v]), r')
           else if d = CHR '','' then scanner (ArrayLoop (vs @ [v])) (skip_ws r')
           else None)"
  by (subst scanner.simps) simp

lemma scanner_ObjectLoop:
  "scanner (ObjectLoop kvs) s =
     (case scanstring s of
        None \<Rightarrow> None
      | Some (key, r) \<Rightarrow>
          (case skip_ws r of
             [] \<Rightarrow> None
           | d # r' \<Rightarrow>
               if d = CHR '':'' then
                 Option.bind (scanner ScanOnce (skip_ws r')) (\<lambda>(v, r'').
                   case skip_ws r'' of
                     [] \<Rightarrow> None
                   | e # t \<Rightarrow>
                       if e = CHR ''}'' then Some (JObject (dict (kvs @ [(key, v)])), t)
                       else if e = CHR '','' then
                         (case skip_ws t of
                            [] \<Rightarrow> None
                          | q # t' \<Rightarrow>
                              if q = CHR 0x22 then scanner (ObjectLoop (kvs @ [(key, v)])) t'
                              else None)
                       else None)
               else None))"
  by (subst scanner.simps) simp

lemma skip_ws_spaces: "skip_ws (replicate n CHR '' '' @ s) = skip_ws s"
  by (induction n) (simp_all add: skip_ws_def json_ws_def)

lemma skip_ws_newline_indent: "skip_ws (newline_indent l @ s) = skip_ws s"
  using skip_ws_spaces[of "2 * l" s] by (simp add: skip_ws_def newline_indent_def json_ws_def)

lemma skip_ws_Cons: "\<not> json_ws c \<Longrightarrow> skip_ws (c # s) = c # s"
  by (simp add: skip_ws_def)

lemma encode_first: "\<exists>c t. encode l v = c # t \<and> \<not> json_ws c \<and> c \<noteq> CHR '']'' \<and> c \<noteq> CHR ''}''"
  by (cases v) (auto simp: encode_basestring_def json_ws_def)

lemma dict_update_fresh: "k \<notin> fst ` set d \<Longrightarrow> dict_update k v d = d @ [(k, v)]"
  by (induction d) auto

lemma foldl_dict_update:
  "distinct (map fst (d @ kvs)) \<Longrightarrow> foldl (\<lambda>d (k, v). dict_update k v d) d kvs = d @ kvs"
proof (induction kvs arbitrary: d)
  case Nil
  show ?case by simp
next
  case (Cons kv kvs)
  obtain k v where kv: "kv = (k, v)" by (cases kv)
  from Cons.prems kv have "k \<notin> fst ` set d" by auto
  then have u: "dict_update k v d = d @ [(k, v)]" by (rule dict_update_fresh)
  from Cons.prems kv have "distinct (map fst ((d @ [(k, v)]) @ kvs))" by simp
  from Cons.IH[OF this] show ?case by (simp add: kv u)
qed

lemma dict_distinct: "distinct (map fst kvs) \<Longrightarrow> dict kvs = kvs"
  using foldl_dict_update[of "[]" kvs] by (simp add: dict_def)


lemma skip_ws_encode: "skip_ws (encode l v @ s) = encode l v @ s"
proof -
  obtain c t where "encode l v = c # t" "\<not> json_ws c" using encode_first by blast
  then show ?thesis by (simp add: skip_ws_Cons)
qed

lemma encode_JArray:
  "vs \<noteq> [] \<Longrightarrow>
   encode l (JArray vs) =
     ''['' @ newline_indent (Suc l) @ join (sep (Suc l)) (map (encode (Suc l)) vs)
     @ newline_indent l @ '']''"
  by (simp add: sep_def)

lemma encode_JObject:
  "kvs \<noteq> [] \<Longrightarrow>
   encode l (JObject kvs) =
     ''{'' @ newline_indent (Suc l) @ join (sep (Suc l)) (map (pair_text (Suc l)) kvs)
     @ newline_indent l @ ''}''"
proof -
  have "(\<lambda>(k, v). encode_basestring k @ '': '' @ encode (Suc l) v) = pair_text (Suc l)"
    by (simp add: fun_eq_iff pair_text_def)
  then show "kvs \<noteq> [] \<Longrightarrow> ?thesis" by (simp add: sep_def)
qed

text \<open>The loop of the array reader on the text of the elements.\<close>

lemma array_loop:
  assumes "vs \<noteq> []"
    and "\<And>v l rest. v \<in> set vs \<Longrightarrow> scanner ScanOnce (encode l v @ rest) = Some (v, rest)"
  shows "scanner (ArrayLoop acc)
           (join (sep (Suc l)) (map (encode (Suc l)) vs) @ newline_indent l @ CHR '']'' # rest)
         = Some (JArray (acc @ vs), rest)"
  using assms
proof (induction vs arbitrary: acc)
  case Nil
  then show ?case by simp
next
  case (Cons v vs)
  have one: "scanner ScanOnce (encode (Suc l) v @ t) = Some (v, t)" for t
    using Cons.prems(2)[of v "Suc l" t] by simp
  show ?case
  proof (cases vs)
    case Nil
    show ?thesis
      by (subst scanner_ArrayLoop)
         (simp add: Nil one skip_ws_newline_indent skip_ws_Cons json_ws_def)
  next
    case (Cons w ws)
    have ih: "scanner (ArrayLoop (acc @ [v]))
                (join (sep (Suc l)) (map (encode (Suc l)) vs) @ newline_indent l @ CHR '']'' # rest)
              = Some (JArray (acc @ v # vs), rest)"
      using Cons.prems(2) Cons Cons.IH[of "acc @ [v]"] by auto
    have j: "join (sep (Suc l)) (map (encode (Suc l)) (v # vs))
             = encode (Suc l) v @ '','' @ newline_indent (Suc l)
               @ join (sep (Suc l)) (map (encode (Suc l)) vs)"
      by (simp add: Cons sep_def)
    have s: "skip_ws (join (sep (Suc l)) (map (encode (Suc l)) vs) @ t)
             = join (sep (Suc l)) (map (encode (Suc l)) vs) @ t" for t
      using skip_ws_encode[of "Suc l" w] by (cases ws) (simp_all add: Cons)
    show ?thesis
      unfolding j
      by (subst scanner_ArrayLoop)
         (simp add: one skip_ws_newline_indent skip_ws_Cons json_ws_def s ih)
  qed
qed


text \<open>The loop of the object reader on the text of the pairs, behind the first quote.\<close>

lemma object_loop:
  assumes "kvs \<noteq> []"
    and "\<And>kv l rest. kv \<in> set kvs \<Longrightarrow> scanner ScanOnce (encode l (snd kv) @ rest) = Some (snd kv, rest)"
  shows "scanner (ObjectLoop acc)
           (tl (join (sep (Suc l)) (map (pair_text (Suc l)) kvs)) @ newline_indent l @ CHR ''}'' # rest)
         = Some (JObject (dict (acc @ kvs)), rest)"
  using assms
proof (induction kvs arbitrary: acc)
  case Nil
  then show ?case by simp
next
  case (Cons kv kvs)
  obtain k v where kv: "kv = (k, v)" by (cases kv)
  have one: "scanner ScanOnce (encode (Suc l) v @ t) = Some (v, t)" for t
    using Cons.prems(2)[of kv "Suc l" t] by (simp add: kv)
  have p: "tl (pair_text (Suc l) (k, v)) = concat (map escape_char k) @ CHR 0x22 # CHR '':'' # CHR '' '' # encode (Suc l) v"
    by (simp add: pair_text_def encode_basestring_def)
  have ne: "pair_text (Suc l) (k, v) \<noteq> []"
    by (simp add: pair_text_def encode_basestring_def)
  have sp: "skip_ws (CHR '' '' # encode (Suc l) v @ t) = encode (Suc l) v @ t" for t
    using skip_ws_encode[of "Suc l" v t] by (simp add: skip_ws_def json_ws_def)
  show ?case
  proof (cases kvs)
    case Nil
    show ?thesis
      unfolding kv Nil
      by (subst scanner_ObjectLoop)
         (simp add: p scanstring_body one sp skip_ws_newline_indent skip_ws_Cons json_ws_def)
  next
    case (Cons kw kws)
    have ih: "scanner (ObjectLoop (acc @ [(k, v)]))
                (tl (join (sep (Suc l)) (map (pair_text (Suc l)) kvs)) @ newline_indent l @ CHR ''}'' # rest)
              = Some (JObject (dict (acc @ (k, v) # kvs)), rest)"
      using Cons.prems(2) Cons Cons.IH[of "acc @ [(k, v)]"] by (auto simp: kv)
    have j: "tl (join (sep (Suc l)) (map (pair_text (Suc l)) ((k, v) # kvs)))
             = tl (pair_text (Suc l) (k, v)) @ CHR '','' # newline_indent (Suc l)
               @ join (sep (Suc l)) (map (pair_text (Suc l)) kvs)"
      using ne by (simp add: Cons sep_def)
    have q: "join (sep (Suc l)) (map (pair_text (Suc l)) kvs)
             = CHR 0x22 # tl (join (sep (Suc l)) (map (pair_text (Suc l)) kvs))"
      by (cases kws) (simp_all add: Cons pair_text_def encode_basestring_def)
    have s: "skip_ws (newline_indent (Suc l) @ join (sep (Suc l)) (map (pair_text (Suc l)) kvs) @ t)
             = CHR 0x22 # tl (join (sep (Suc l)) (map (pair_text (Suc l)) kvs)) @ t" for t
      by (subst q) (simp add: skip_ws_newline_indent skip_ws_Cons json_ws_def)
    show ?thesis
      unfolding kv j p
      by (subst scanner_ObjectLoop)
         (simp add: scanstring_body one sp skip_ws_Cons json_ws_def s ih)
  qed
qed


lemma join_first:
  assumes "vs \<noteq> []"
  shows "\<exists>c t. join s (map (encode l) vs) = c # t \<and> \<not> json_ws c \<and> c \<noteq> CHR '']''"
proof -
  from assms obtain v ws where vs: "vs = v # ws" by (cases vs) auto
  obtain c t where "encode l v = c # t" "\<not> json_ws c" "c \<noteq> CHR '']''"
    using encode_first by blast
  then show ?thesis by (cases ws) (simp_all add: vs)
qed

lemma join_pairs_first:
  assumes "kvs \<noteq> []"
  shows "join s (map (pair_text l) kvs) = CHR 0x22 # tl (join s (map (pair_text l) kvs))"
proof -
  from assms obtain kv ws where kvs: "kvs = kv # ws" by (cases kvs) auto
  show ?thesis by (cases ws) (simp_all add: kvs pair_text_def encode_basestring_def)
qed

lemma scan_encode: "wf_json v \<Longrightarrow> scanner ScanOnce (encode l v @ rest) = Some (v, rest)"
proof (induction v arbitrary: l rest)
  case JNull
  show ?case by (simp add: scanner_ScanOnce_Cons)
next
  case (JString s)
  show ?case by (simp add: scanner_ScanOnce_Cons encode_basestring_def scanstring_body)
next
  case (JArray vs)
  show ?case
  proof (cases "vs = []")
    case True
    then show ?thesis by (simp add: scanner_ScanOnce_Cons skip_ws_Cons json_ws_def)
  next
    case False
    have each: "scanner ScanOnce (encode l' v @ t) = Some (v, t)" if "v \<in> set vs" for v l' t
      using that JArray.IH[of v l' t] JArray.prems by (simp add: list_all_iff)
    obtain c t where j: "join (sep (Suc l)) (map (encode (Suc l)) vs) = c # t"
      and c: "\<not> json_ws c" "c \<noteq> CHR '']''"
      using join_first[OF False] by blast
    have "scanner (ArrayLoop []) (c # t @ newline_indent l @ CHR '']'' # rest) = Some (JArray vs, rest)"
      using array_loop[OF False each, of "[]" l rest] by (simp add: j)
    moreover have "encode l (JArray vs) @ rest
                   = CHR ''['' # newline_indent (Suc l) @ (c # t) @ newline_indent l @ CHR '']'' # rest"
      by (simp add: encode_JArray[OF False] j del: encode.simps)
    ultimately show ?thesis
      by (simp add: scanner_ScanOnce_Cons skip_ws_newline_indent c skip_ws_Cons del: encode.simps)
  qed
next
  case (JObject kvs)
  show ?case
  proof (cases "kvs = []")
    case True
    then show ?thesis by (simp add: scanner_ScanOnce_Cons skip_ws_Cons json_ws_def)
  next
    case False
    have each: "scanner ScanOnce (encode l' (snd kv) @ t) = Some (snd kv, t)"
      if "kv \<in> set kvs" for kv l' t
    proof -
      obtain k v where kv: "kv = (k, v)" by (cases kv)
      from that JObject.prems have "wf_json v" by (auto simp: kv list_all_iff)
      with JObject.IH[of kv v l' t] that show ?thesis by (simp add: kv)
    qed
    from JObject.prems have d: "dict kvs = kvs" by (simp add: dict_distinct)
    let ?j = "join (sep (Suc l)) (map (pair_text (Suc l)) kvs)"
    have "scanner (ObjectLoop []) (tl ?j @ newline_indent l @ CHR ''}'' # rest)
          = Some (JObject kvs, rest)"
      using object_loop[OF False each, of "[]" l rest] by (simp add: d)
    moreover have "skip_ws (newline_indent (Suc l) @ ?j @ newline_indent l @ CHR ''}'' # rest)
                   = CHR 0x22 # tl ?j @ newline_indent l @ CHR ''}'' # rest"
      by (subst join_pairs_first[OF False])
         (simp add: skip_ws_newline_indent skip_ws_Cons json_ws_def)
    moreover have "encode l (JObject kvs) @ rest
                   = CHR ''{'' # newline_indent (Suc l) @ ?j @ newline_indent l @ CHR ''}'' # rest"
      by (simp add: encode_JObject[OF False] del: encode.simps)
    ultimately show ?thesis
      by (simp add: scanner_ScanOnce_Cons del: encode.simps)
  qed
qed

lemma json_load_encode: "wf_json v \<Longrightarrow> json_load (encode 0 v) = Some v"
  using scan_encode[of v 0 "[]"] skip_ws_encode[of 0 v "[]"]
  by (simp add: json_load_def skip_ws_def)

lemma asdict_inject: "asdict a = asdict b \<Longrightarrow> a = b"
proof -
  have o: "opt_json x = opt_json y \<Longrightarrow> x = y" for x y
    by (cases x; cases y) simp_all
  show "asdict a = asdict b \<Longrightarrow> a = b"
    by (cases a, cases b) (auto simp: asdict_def dest: o)
qed

text \<open>
  C8. Writing a list of records as the JSON array of their dictionaries (keys \<^verbatim>\<open>date\<close>,
  \<^verbatim>\<open>day_of_week\<close>, \<^verbatim>\<open>service_name\<close>, \<^verbatim>\<open>location\<close>, \<^verbatim>\<open>time\<close>, \<^verbatim>\<open>occasion\<close>, \<^verbatim>\<open>notes\<close>; an unset
  field as \<^verbatim>\<open>null\<close>) and reading the text again gives the dictionaries of the same records
  in the same order, and the dictionary of a record determines each of its fields.
\<close>

theorem json_round_trip:
  "json_load (json_dump services) = Some (JArray (map (\<lambda>service. JObject (asdict service)) services))
   \<and> inj asdict"
proof -
  have w: "wf_json (JObject (asdict service))" for service
    by (cases "location service"; cases "time service"; cases "occasion service";
        cases "notes_text service")
       (simp_all add: asdict_def)
  then have "wf_json (JArray (map (\<lambda>service. JObject (asdict service)) services))"
    by (simp add: list_all_iff)
  then have "json_load (json_dump services)
             = Some (JArray (map (\<lambda>service. JObject (asdict service)) services))"
    unfolding json_dump_def by (rule json_load_encode)
  moreover have "inj asdict" by (rule injI) (rule asdict_inject)
  ultimately show ?thesis by simp
qed

section \<open>The two scripts\<close>

lemma scrape_read_details_eq: "scrape_read_details = read_details"
  by (simp add: fun_eq_iff scrape_read_details_def read_details_def)

lemma scrape_item_service_eq: "scrape_item_service = item_service"
  unfolding fun_eq_iff scrape_item_service_def item_service_def scrape_read_details_eq
  by (rule allI) (rule refl)

lemma scrape_collect_eq: "scrape_collect items acc = collect items acc"
  by (induction items arbitrary: acc) (simp_all add: scrape_item_service_eq split: option.splits)

text \<open>
  C9. On every document, \<open>fetch_calendar\<close> of \<^verbatim>\<open>fetch_calendar.py\<close> and \<open>fetch_calendar\<close> of
  \<^verbatim>\<open>scrape_calendar.py\<close> return the same records in the same order.
\<close>

theorem scripts_agree: "scrape_fetch_calendar soup = fetch_calendar soup"
  by (simp add: scrape_fetch_calendar_def fetch_calendar_def scrape_collect_eq split: option.splits)

section \<open>Entries without a meta block or a content block\<close>

text \<open>
  C10. An entry that has no meta block, or whose meta text has the date pattern and
  which has no content block, gives no record, and the loop goes on with the next entry.
\<close>

theorem missing_block_no_record:
  assumes "find_tag ''div'' (Some ''meta'') item = None
           \<or> (\<exists>meta. find_tag ''div'' (Some ''meta'') item = Some meta
                 \<and> has_date_pattern (get_text meta)
                 \<and> find_tag ''div'' (Some ''calendar-item-content'') item = None)"
  shows "item_service item = None \<and> collect (xs @ item # ys) acc = collect (xs @ ys) acc"
proof -
  from assms have "item_service item = None"
    by (auto simp: item_service_None_iff)
  then show ?thesis by (simp add: collect_skip)
qed

theorem missing_block_no_record_witness:
  "find_tag ''div'' (Some ''meta'') no_meta_item = None
   \<and> item_service no_meta_item = None
   \<and> collect ([vesper_entry] @ no_meta_item # [liturgi_entry]) [] = collect ([vesper_entry] @ [liturgi_entry]) []
   \<and> find_tag ''div'' (Some ''meta'') no_content_item = Some (div_class ''meta'' [Text ''2026-02-20 | Fredag''])
   \<and> has_date_pattern (get_text (div_class ''meta'' [Text ''2026-02-20 | Fredag'']))
   \<and> find_tag ''div'' (Some ''calendar-item-content'') no_content_item = None
   \<and> item_service no_content_item = None
   \<and> collect ([vesper_entry] @ no_content_item # [liturgi_entry]) [] = collect ([vesper_entry] @ [liturgi_entry]) []"
proof -
  have a: "find_tag ''div'' (Some ''meta'') no_meta_item = None" by code_simp
  have b: "find_tag ''div'' (Some ''meta'') no_content_item = Some (div_class ''meta'' [Text ''2026-02-20 | Fredag''])"
    by code_simp
  have "re_search date_re (get_text (div_class ''meta'' [Text ''2026-02-20 | Fredag''])) \<noteq> None"
    by code_simp
  then have c: "has_date_pattern (get_text (div_class ''meta'' [Text ''2026-02-20 | Fredag'']))"
    by (simp add: has_date_pattern_iff)
  have d: "find_tag ''div'' (Some ''calendar-item-content'') no_content_item = None" by code_simp
  from missing_block_no_record[of no_meta_item "[vesper_entry]" "[liturgi_entry]" "[]"] a
  have e: "item_service no_meta_item = None
           \<and> collect ([vesper_entry] @ no_meta_item # [liturgi_entry]) [] = collect ([vesper_entry] @ [liturgi_entry]) []"
    by blast
  from missing_block_no_record[of no_content_item "[vesper_entry]" "[liturgi_entry]" "[]"] b c d
  have f: "item_service no_content_item = None
           \<and> collect ([vesper_entry] @ no_content_item # [liturgi_entry]) [] = collect ([vesper_entry] @ [liturgi_entry]) []"
    by blast
  from a b c d e f show ?thesis by blast
qed

end
